theory Spec2Isabelle
  imports
    Complex_Main
    "HOL-Library.Word"
    "HOL-Library.Sublist"
    "HOL-Library.Multiset"
    "HOL-Library.Char_ord"
    "HOL-Library.List_Lexorder"
begin

unbundle bit_operations_syntax

section \<open>Configuration constants of \<open>scripts/generate-ca.js\<close>\<close>

definition COLS :: nat where
  "COLS = 201"

definition ROWS :: nat where
  "ROWS = 100"

definition LIBRARY_CAP :: nat where
  "LIBRARY_CAP = 50"

definition SHOWN_CAP :: nat where
  "SHOWN_CAP = 25"

section \<open>The cellular automaton grid of \<open>buildSVG\<close>\<close>

text \<open>
  A JavaScript number that holds an integer is an \<open>int\<close>. The operators \<open>>>\<close> and
  \<open>&\<close> first convert their operands to 32-bit two's complement (ToInt32), which is
  \<open>word_of_int\<close> into \<open>32 word\<close>; the result is read back as a signed value.
\<close>

definition js_sar :: "int \<Rightarrow> nat \<Rightarrow> int" where
  "js_sar a i = sint (signed_drop_bit i (word_of_int a :: 32 word))"

definition js_and :: "int \<Rightarrow> int \<Rightarrow> int" where
  "js_and a b = sint ((word_of_int a :: 32 word) AND word_of_int b)"

text \<open>
  \<^verbatim>\<open>const rulemap = {};
  for (let i = 0; i < 8; i++) rulemap[i] = (ruleNum >> i) & 1;\<close>
  The object is a map from keys to numbers; a key that was never stored reads as
  \<open>undefined\<close>, which is \<open>None\<close> here.
\<close>

function rulemap_loop :: "int \<Rightarrow> (nat \<rightharpoonup> int) \<Rightarrow> nat \<Rightarrow> (nat \<rightharpoonup> int)" where
  "rulemap_loop ruleNum rm i =
     (if i < 8 then rulemap_loop ruleNum (rm(i \<mapsto> js_and (js_sar ruleNum i) 1)) (i + 1)
      else rm)"
  by pat_completeness auto
termination
  by (relation "measure (\<lambda>(ruleNum, rm, i). 8 - i)") auto

declare rulemap_loop.simps [simp del]

definition rulemap :: "int \<Rightarrow> (nat \<rightharpoonup> int)" where
  "rulemap ruleNum = rulemap_loop ruleNum Map.empty 0"

text \<open>
  A row of the grid is a \<open>Uint8Array\<close>: a list of bytes. Reading an index outside the
  array gives \<open>undefined\<close>, which the operators \<open><<\<close> and \<open>|\<close> take as 0; the values read
  are at most 255, so the 32-bit shifts and ors below never overflow and are written
  on \<open>nat\<close>.
\<close>

type_synonym row = "8 word list"
type_synonym grid = "row list"

definition u8_read :: "row \<Rightarrow> nat \<Rightarrow> nat" where
  "u8_read a i = (if i < length a then unat (a ! i) else 0)"

text \<open>
  Storing into a \<open>Uint8Array\<close> converts the value to a byte (ToUint8); \<open>undefined\<close>
  is stored as 0.
\<close>

definition to_u8 :: "int option \<Rightarrow> 8 word" where
  "to_u8 v = (case v of None \<Rightarrow> 0 | Some n \<Rightarrow> word_of_int n)"

text \<open>
  The body of the column loop:
  \<^verbatim>\<open>const L = prev[(c - 1 + COLS) % COLS];
  const C = prev[c];
  const R = prev[(c + 1) % COLS];
  curr[c] = rulemap[(L << 2) | (C << 1) | R];\<close>
\<close>

definition cell :: "(nat \<rightharpoonup> int) \<Rightarrow> row \<Rightarrow> nat \<Rightarrow> 8 word" where
  "cell rm prev c =
     (let L = u8_read prev (nat ((int c - 1 + int COLS) mod int COLS));
          C = u8_read prev c;
          R = u8_read prev ((c + 1) mod COLS)
      in to_u8 (rm ((push_bit 2 L OR push_bit 1 C) OR R)))"

function inner_loop :: "(nat \<rightharpoonup> int) \<Rightarrow> row \<Rightarrow> row \<Rightarrow> nat \<Rightarrow> row" where
  "inner_loop rm prev cur c =
     (if c < COLS then inner_loop rm prev (cur[c := cell rm prev c]) (c + 1) else cur)"
  by pat_completeness auto
termination
  by (relation "measure (\<lambda>(rm, prev, cur, c). COLS - c)") auto

declare inner_loop.simps [simp del]

text \<open>
  \<^verbatim>\<open>for (let r = 1; r < ROWS; r++) {
    const prev = grid[r - 1], curr = grid[r];
    for (let c = 0; c < COLS; c++) { ... }
  }\<close>
  The rows are distinct arrays, so writing \<open>curr\<close> never changes \<open>prev\<close>. The grid has
  \<open>ROWS\<close> rows throughout, so \<open>r - 1\<close> and \<open>r\<close> are indices of the grid.
\<close>

function outer_loop :: "(nat \<rightharpoonup> int) \<Rightarrow> grid \<Rightarrow> nat \<Rightarrow> grid" where
  "outer_loop rm g r =
     (if r < ROWS
      then outer_loop rm (g[r := inner_loop rm (g ! (r - 1)) (g ! r) 0]) (r + 1)
      else g)"
  by pat_completeness auto
termination
  by (relation "measure (\<lambda>(rm, g, r). ROWS - r)") auto

declare outer_loop.simps [simp del]

text \<open>
  \<^verbatim>\<open>const grid = Array.from({ length: ROWS }, () => new Uint8Array(COLS));
  grid[0][Math.floor(COLS / 2)] = 1;\<close>
\<close>

definition initial_grid :: grid where
  "initial_grid =
     (let g = replicate ROWS (replicate COLS (0 :: 8 word))
      in g[0 := (g ! 0)[COLS div 2 := 1]])"

definition buildSVG_grid :: "int \<Rightarrow> grid" where
  "buildSVG_grid ruleNum = outer_loop (rulemap ruleNum) initial_grid 1"


subsection \<open>The grid as the specification describes it\<close>

text \<open>
  The specification's words, for comparison with \<open>buildSVG_grid\<close>: the output for
  neighbourhood code \<open>i\<close> is bit \<open>i\<close> of the rule; the code has the left cell as bit 2,
  the centre cell as bit 1 and the right cell as bit 0; row 0 has a single 1 at column
  \<open>floor(COLS/2)\<close>; every later cell is the mapping applied to the code of the three
  cells above it, with the column indices taken modulo \<open>COLS\<close>.
\<close>

definition spec_mapping :: "int \<Rightarrow> nat \<Rightarrow> 8 word" where
  "spec_mapping rule i = (if bit rule i then 1 else 0)"

definition spec_code :: "8 word \<Rightarrow> 8 word \<Rightarrow> 8 word \<Rightarrow> nat" where
  "spec_code l c r = 4 * unat l + 2 * unat c + unat r"

definition spec_seed_row :: row where
  "spec_seed_row = map (\<lambda>c. if c = COLS div 2 then 1 else 0) [0..<COLS]"

definition spec_next_cell :: "int \<Rightarrow> row \<Rightarrow> nat \<Rightarrow> 8 word" where
  "spec_next_cell rule prev c =
     spec_mapping rule
       (spec_code (prev ! nat ((int c - 1) mod int COLS)) (prev ! c) (prev ! ((c + 1) mod COLS)))"

definition spec_grid :: "int \<Rightarrow> grid \<Rightarrow> bool" where
  "spec_grid rule g \<longleftrightarrow>
     length g = ROWS \<and> (\<forall>r \<in> {0..<ROWS}. length (g ! r) = COLS) \<and>
     g ! 0 = spec_seed_row \<and>
     (\<forall>r \<in> {1..<ROWS}. \<forall>c \<in> {0..<COLS}. g ! r ! c = spec_next_cell rule (g ! (r - 1)) c)"

definition binary_row :: "row \<Rightarrow> bool" where
  "binary_row xs \<longleftrightarrow> (\<forall>x \<in> set xs. x = 0 \<or> x = 1)"

section \<open>Strings and arrays\<close>

text \<open>
  Text is a \<open>string\<close>, compared character by character (\<open>Char_ord\<close>,
  \<open>List_Lexorder\<close>) as JavaScript compares strings code unit by code unit; a proper
  prefix is smaller. The file names the script makes and the two markers are ASCII.
  Text outside ASCII (the dash of the caption) is held as the bytes the script reads
  and writes with the \<open>'utf8'\<close> encoding.
\<close>

definition endsWith :: "string \<Rightarrow> string \<Rightarrow> bool" where
  "endsWith s suf = suffix suf s"

text \<open>
  \<open>Array.prototype.slice\<close> and \<open>String.prototype.slice\<close>: a negative index counts
  from the end, and every index is clamped to the length.
\<close>

definition clamp_index :: "nat \<Rightarrow> int \<Rightarrow> nat" where
  "clamp_index len k = (if k < 0 then nat (max (int len + k) 0) else min (nat k) len)"

definition slice :: "'a list \<Rightarrow> int \<Rightarrow> int \<Rightarrow> 'a list" where
  "slice xs b e =
     (let from = clamp_index (length xs) b; to = clamp_index (length xs) e
      in take (to - from) (drop from xs))"

definition slice_from :: "'a list \<Rightarrow> int \<Rightarrow> 'a list" where
  "slice_from xs b = drop (clamp_index (length xs) b) xs"

text \<open>\<open>s.indexOf(pat)\<close>: the index of the first occurrence, or \<open>-1\<close>.\<close>

fun index_from :: "string \<Rightarrow> string \<Rightarrow> nat \<Rightarrow> int" where
  "index_from pat [] i = (if pat = [] then int i else - 1)"
| "index_from pat (c # cs) i =
     (if prefix pat (c # cs) then int i else index_from pat cs (i + 1))"

definition indexOf :: "string \<Rightarrow> string \<Rightarrow> int" where
  "indexOf s pat = index_from pat s 0"

text \<open>\<open>lines.join('\n')\<close>\<close>

fun join :: "string \<Rightarrow> string list \<Rightarrow> string" where
  "join sep [] = []"
| "join sep [x] = x"
| "join sep (x # y # ys) = x @ sep @ join sep (y # ys)"

text \<open>
  \<open>String(n)\<close> and the template literal \<open>${n}\<close> for a number holding an integer:
  its decimal digits, with a minus sign when negative. (JavaScript switches to the
  exponent form from \<open>10^21\<close> on; the rule numbers here are far below.)
\<close>

definition digit_char :: "nat \<Rightarrow> char" where
  "digit_char d = char_of (48 + d)"

function decimal :: "nat \<Rightarrow> string" where
  "decimal n = (if n < 10 then [digit_char n] else decimal (n div 10) @ [digit_char (n mod 10)])"
  by pat_completeness auto
termination
  by (relation "measure id") auto

declare decimal.simps [simp del]

definition String_of :: "int \<Rightarrow> string" where
  "String_of n = (if n < 0 then CHR ''-'' # decimal (nat (- n)) else decimal (nat n))"

definition padStart :: "string \<Rightarrow> nat \<Rightarrow> char \<Rightarrow> string" where
  "padStart s n c = replicate (n - length s) c @ s"

section \<open>Step 1: the name of the new artifact\<close>

text \<open>
  \<^verbatim>\<open>const newFilename = `rule-${String(newRule).padStart(3,'0')}-${timestamp}.svg`;\<close>
  The timestamp comes from the clock and is a parameter.
\<close>

definition newFilename :: "int \<Rightarrow> string \<Rightarrow> string" where
  "newFilename newRule timestamp =
     ''rule-'' @ padStart (String_of newRule) 3 (CHR ''0'') @ ''-'' @ timestamp @ ''.svg''"

section \<open>Step 2: the library cap\<close>

text \<open>
  The library directory is the list of its entries, as \<open>readdirSync\<close> returns them;
  \<open>unlinkSync\<close> removes an entry.
  \<^verbatim>\<open>let libraryFiles = fs.readdirSync(libraryDir)
    .filter(f => f.endsWith('.svg'))
    .sort();\<close>
\<close>

definition list_library :: "string list \<Rightarrow> string list" where
  "list_library dir = sort (filter (\<lambda>f. endsWith f ''.svg'') dir)"

definition unlink :: "string \<Rightarrow> string list \<Rightarrow> string list" where
  "unlink f dir = removeAll f dir"

text \<open>
  \<^verbatim>\<open>while (libraryFiles.length > LIBRARY_CAP) {
    const oldest = libraryFiles.shift();
    fs.unlinkSync(path.join(libraryDir, oldest));
    console.log(`Pruned ${oldest}`);
  }\<close>
  The state is the array, the directory and the names logged as pruned. The array is
  not empty where \<open>shift\<close> is called, since it is longer than the cap.
\<close>

function prune_loop ::
  "string list \<Rightarrow> string list \<Rightarrow> string list \<Rightarrow> string list \<times> string list \<times> string list" where
  "prune_loop libraryFiles dir pruned =
     (if length libraryFiles > LIBRARY_CAP
      then (case libraryFiles of
              [] \<Rightarrow> (libraryFiles, dir, pruned)
            | oldest # rest \<Rightarrow> prune_loop rest (unlink oldest dir) (pruned @ [oldest]))
      else (libraryFiles, dir, pruned))"
  by pat_completeness auto
termination
  by (relation "measure (\<lambda>(libraryFiles, dir, pruned). length libraryFiles)") auto

declare prune_loop.simps [simp del]

definition prune :: "string list \<Rightarrow> string list \<times> string list \<times> string list" where
  "prune dir = prune_loop (list_library dir) dir []"

section \<open>Step 3: the shown history\<close>

text \<open>
  The values \<open>JSON.parse\<close> can return, and \<open>undefined\<close>, which \<open>push\<close> can add.
\<close>

datatype jsval =
    Undefined
  | Null
  | Bool bool
  | Num real
  | Str string
  | Arr "jsval list"
  | Obj "(string \<times> jsval) list"

text \<open>
  \<^verbatim>\<open>let shown = [];
  if (fs.existsSync(shownFile)) {
    try { shown = JSON.parse(fs.readFileSync(shownFile, 'utf8')); } catch {}
  }\<close>
  The file is \<open>None\<close> when it does not exist. \<open>JSON.parse\<close> is the platform's and
  is a parameter: it gives \<open>None\<close> where it throws.
\<close>

definition load_shown :: "(string \<Rightarrow> jsval option) \<Rightarrow> string option \<Rightarrow> jsval" where
  "load_shown JSON_parse shownFile =
     (case shownFile of
        None \<Rightarrow> Arr []
      | Some contents \<Rightarrow>
          (case JSON_parse contents of None \<Rightarrow> Arr [] | Some v \<Rightarrow> v))"

section \<open>Step 4: the pick\<close>

text \<open>
  \<^verbatim>\<open>const available = libraryFiles.filter(f => !shown.includes(f));
  const pool = available.length > 0 ? available : libraryFiles;
  const picked = pool[Math.floor(Math.random() * pool.length)];\<close>
  \<open>includes\<close> finds a file name among the elements that are that string.
  \<open>Math.random()\<close> is a parameter \<open>u\<close>, a number with \<open>0 \<le> u < 1\<close>; reading
  an array at its length or beyond gives \<open>undefined\<close>, which is \<open>None\<close>. The product
  is taken exactly here. The rounded product of the script also stays below the length,
  and every index below the length is \<open>random_index u n\<close> for some such \<open>u\<close>, so a
  property of the pick for every \<open>u\<close> is a property of every pick of the script.
\<close>

definition array_includes :: "jsval list \<Rightarrow> string \<Rightarrow> bool" where
  "array_includes shown f \<longleftrightarrow> Str f \<in> set shown"

definition available :: "string list \<Rightarrow> jsval list \<Rightarrow> string list" where
  "available libraryFiles shown = filter (\<lambda>f. \<not> array_includes shown f) libraryFiles"

definition pool :: "string list \<Rightarrow> jsval list \<Rightarrow> string list" where
  "pool libraryFiles shown =
     (if length (available libraryFiles shown) > 0 then available libraryFiles shown
      else libraryFiles)"

definition random_index :: "real \<Rightarrow> nat \<Rightarrow> nat" where
  "random_index u n = nat \<lfloor>u * real n\<rfloor>"

definition pick :: "string list \<Rightarrow> jsval list \<Rightarrow> real \<Rightarrow> string option" where
  "pick libraryFiles shown u =
     (let p = pool libraryFiles shown; i = random_index u (length p)
      in if i < length p then Some (p ! i) else None)"

section \<open>Step 5: recording the pick\<close>

text \<open>
  \<^verbatim>\<open>shown.push(picked);
  if (shown.length > SHOWN_CAP) shown = shown.slice(-SHOWN_CAP);\<close>
\<close>

definition recordShown :: "'a list \<Rightarrow> 'a \<Rightarrow> 'a list" where
  "recordShown shown picked =
     (let shown = shown @ [picked]
      in if length shown > SHOWN_CAP then slice_from shown (- int SHOWN_CAP) else shown)"

text \<open>
  Steps 4 and 5 on the loaded value. A parsed value that is not an array has no
  \<open>push\<close> (and, but for a string, no \<open>includes\<close>): the script stops with a
  \<open>TypeError\<close>. The result is the pick and the history to be saved.
\<close>

datatype error = TypeError

definition picked_val :: "string option \<Rightarrow> jsval" where
  "picked_val picked = (case picked of None \<Rightarrow> Undefined | Some f \<Rightarrow> Str f)"

definition pick_and_record ::
  "string list \<Rightarrow> jsval \<Rightarrow> real \<Rightarrow> error + (string option \<times> jsval list)" where
  "pick_and_record libraryFiles shown u =
     (case shown of
        Arr xs \<Rightarrow>
          (let picked = pick libraryFiles xs u
           in Inr (picked, recordShown xs (picked_val picked)))
      | _ \<Rightarrow> Inl TypeError)"

section \<open>Step 7: the document\<close>

definition BEGIN_MARKER :: string where
  "BEGIN_MARKER = ''<!-- BEGIN CELLULAR AUTOMATON -->''"

definition END_MARKER :: string where
  "END_MARKER = ''<!-- END CELLULAR AUTOMATON -->''"

text \<open>
  \<^verbatim>\<open>const pickedRule = parseInt(picked.match(/rule-(\d+)/)[1], 10);\<close>
  The match is the leftmost place where \<open>rule-\<close> is followed by a digit, and the group
  is the longest run of digits there; without a match, \<open>match\<close> gives \<open>null\<close> and the
  index throws. \<open>parseInt\<close> of a run of digits is its decimal value (exact here; a
  JavaScript number is exact up to \<open>2^53\<close>).
\<close>

definition is_digit :: "char \<Rightarrow> bool" where
  "is_digit c \<longleftrightarrow> CHR ''0'' \<le> c \<and> c \<le> CHR ''9''"

fun match_rule :: "string \<Rightarrow> string option" where
  "match_rule [] = None"
| "match_rule (c # cs) =
     (let ds = takeWhile is_digit (drop 5 (c # cs))
      in if prefix ''rule-'' (c # cs) \<and> ds \<noteq> [] then Some ds else match_rule cs)"

definition digit_val :: "char \<Rightarrow> nat" where
  "digit_val c = of_char c - 48"

definition parseInt_digits :: "string \<Rightarrow> nat" where
  "parseInt_digits ds = foldl (\<lambda>acc c. 10 * acc + digit_val c) 0 ds"

definition pickedRule :: "string \<Rightarrow> error + nat" where
  "pickedRule picked =
     (case match_rule picked of
        None \<Rightarrow> Inl TypeError
      | Some ds \<Rightarrow> Inr (parseInt_digits ds))"

text \<open>
  \<^verbatim>\<open>const injection = [
    BEGIN_MARKER,
    '',
    `![Wolfram Elementary Cellular Automaton - Rule ${pickedRule}](./ca.svg)`,
    '',
    `*Rule ${pickedRule} - updates every 8 hours*`,
    '',
    END_MARKER,
  ].join('\n');\<close>
  where the two dashes are the character U+2014.
\<close>

definition em_dash :: string where
  "em_dash = [CHR 0xE2, CHR 0x80, CHR 0x94]"

definition newline :: string where
  "newline = [CHR 0x0A]"

definition injection :: "nat \<Rightarrow> string" where
  "injection rule =
     join newline
       [BEGIN_MARKER,
        [],
        ''![Wolfram Elementary Cellular Automaton '' @ em_dash @ '' Rule '' @ decimal rule
          @ ''](./ca.svg)'',
        [],
        ''*Rule '' @ decimal rule @ '' '' @ em_dash @ '' updates every 8 hours*'',
        [],
        END_MARKER]"

text \<open>
  \<^verbatim>\<open>const beginIdx = template.indexOf(BEGIN_MARKER);
  const endIdx   = template.indexOf(END_MARKER);
  if (beginIdx === -1 || endIdx === -1) {
    console.error('ERROR: Markers not found in README.template');
    process.exit(1);
  }
  fs.writeFileSync(readmePath,
    template.slice(0, beginIdx) + injection + template.slice(endIdx + END_MARKER.length),
    'utf8');\<close>
  The outcome of the step: the exit status, what went to the error stream, and what
  was written to the destination document (\<open>None\<close>: nothing was written).
\<close>

record outcome =
  exit_status :: nat
  stderr :: "string list"
  readme :: "string option"

definition write_readme :: "string \<Rightarrow> nat \<Rightarrow> outcome" where
  "write_readme template rule =
     (let beginIdx = indexOf template BEGIN_MARKER;
          endIdx = indexOf template END_MARKER
      in if beginIdx = - 1 \<or> endIdx = - 1
         then \<lparr>exit_status = 1,
               stderr = [''ERROR: Markers not found in README.template''],
               readme = None\<rparr>
         else \<lparr>exit_status = 0,
               stderr = [],
               readme = Some (slice template 0 beginIdx @ injection rule
                              @ slice_from template (endIdx + int (length END_MARKER)))\<rparr>)"

section \<open>Example inputs\<close>

text \<open>
  A library directory with 52 artifacts, listed in no particular order, and one file
  that is not an artifact.
\<close>

definition example_dir :: "string list" where
  "example_dir =
    [''rule-123-2026-01-31T08-00-00-000.svg'',
     ''rule-086-2026-01-30T08-00-00-000.svg'',
     ''rule-049-2026-01-29T08-00-00-000.svg'',
     ''rule-012-2026-01-28T08-00-00-000.svg'',
     ''rule-231-2026-01-27T08-00-00-000.svg'',
     ''rule-194-2026-01-26T08-00-00-000.svg'',
     ''rule-157-2026-01-25T08-00-00-000.svg'',
     ''rule-120-2026-01-24T08-00-00-000.svg'',
     ''rule-083-2026-01-23T08-00-00-000.svg'',
     ''rule-046-2026-01-22T08-00-00-000.svg'',
     ''rule-009-2026-01-21T08-00-00-000.svg'',
     ''rule-228-2026-01-20T08-00-00-000.svg'',
     ''rule-191-2026-01-19T08-00-00-000.svg'',
     ''rule-154-2026-01-18T08-00-00-000.svg'',
     ''rule-117-2026-01-17T08-00-00-000.svg'',
     ''rule-080-2026-01-16T08-00-00-000.svg'',
     ''rule-043-2026-01-15T08-00-00-000.svg'',
     ''rule-006-2026-01-14T08-00-00-000.svg'',
     ''rule-225-2026-01-13T08-00-00-000.svg'',
     ''rule-188-2026-01-12T08-00-00-000.svg'',
     ''rule-151-2026-01-11T08-00-00-000.svg'',
     ''rule-114-2026-01-10T08-00-00-000.svg'',
     ''rule-077-2026-01-09T08-00-00-000.svg'',
     ''rule-040-2026-01-08T08-00-00-000.svg'',
     ''rule-003-2026-01-07T08-00-00-000.svg'',
     ''rule-222-2026-01-06T08-00-00-000.svg'',
     ''rule-185-2026-01-05T08-00-00-000.svg'',
     ''rule-148-2026-01-04T08-00-00-000.svg'',
     ''rule-111-2026-01-03T08-00-00-000.svg'',
     ''rule-074-2026-01-02T08-00-00-000.svg'',
     ''rule-037-2026-01-01T08-00-00-000.svg'',
     ''rule-053-2026-02-01T08-00-00-000.svg'',
     ''rule-106-2026-02-02T08-00-00-000.svg'',
     ''rule-159-2026-02-03T08-00-00-000.svg'',
     ''rule-212-2026-02-04T08-00-00-000.svg'',
     ''rule-009-2026-02-05T08-00-00-000.svg'',
     ''rule-062-2026-02-06T08-00-00-000.svg'',
     ''rule-115-2026-02-07T08-00-00-000.svg'',
     ''rule-168-2026-02-08T08-00-00-000.svg'',
     ''rule-221-2026-02-09T08-00-00-000.svg'',
     ''rule-018-2026-02-10T08-00-00-000.svg'',
     ''rule-071-2026-02-11T08-00-00-000.svg'',
     ''rule-124-2026-02-12T08-00-00-000.svg'',
     ''rule-177-2026-02-13T08-00-00-000.svg'',
     ''rule-230-2026-02-14T08-00-00-000.svg'',
     ''rule-027-2026-02-15T08-00-00-000.svg'',
     ''rule-080-2026-02-16T08-00-00-000.svg'',
     ''rule-133-2026-02-17T08-00-00-000.svg'',
     ''rule-186-2026-02-18T08-00-00-000.svg'',
     ''rule-239-2026-02-19T08-00-00-000.svg'',
     ''rule-036-2026-02-20T08-00-00-000.svg'',
     ''rule-089-2026-02-21T08-00-00-000.svg'',
     ''README.txt'']"

section \<open>Occurrences of a marker\<close>

text \<open>
  For stating what \<open>indexOf\<close> finds: \<open>pat\<close> occurs in \<open>s\<close> at index \<open>k\<close> and at no
  smaller index; and the number of places where \<open>pat\<close> occurs in \<open>s\<close>.
\<close>

definition first_occurrence :: "string \<Rightarrow> string \<Rightarrow> nat \<Rightarrow> bool" where
  "first_occurrence pat s k \<longleftrightarrow>
     k \<le> length s \<and> prefix pat (drop k s) \<and> (\<forall>j \<in> {0..<k}. \<not> prefix pat (drop j s))"

fun occurrences :: "string \<Rightarrow> string \<Rightarrow> nat" where
  "occurrences pat [] = (if pat = [] then 1 else 0)"
| "occurrences pat (c # cs) = (if prefix pat (c # cs) then 1 else 0) + occurrences pat cs"

text \<open>
  Three templates: one with both markers in order, one without the end marker, and one
  with the end marker before the begin marker.
\<close>

definition example_template :: string where
  "example_template = ''# Hello '' @ BEGIN_MARKER @ ''old'' @ END_MARKER @ '' bye''"

definition example_template_no_end :: string where
  "example_template_no_end = ''# Hello '' @ BEGIN_MARKER @ '' old''"

definition example_template_reversed :: string where
  "example_template_reversed = END_MARKER @ '' '' @ BEGIN_MARKER"

section \<open>Properties of the grid\<close>

lemma js_bit: "i < 32 \<Longrightarrow> js_and (js_sar n i) 1 = of_bool (bit n i)"
  unfolding js_and_def js_sar_def
  apply (rule bit_eqI)
  apply (auto simp add: bit_simps bit_sint_iff bit_word_of_int_iff bit_signed_drop_bit_iff bit_and_iff bit_1_iff)
  done

lemma rulemap_loop_val:
  "rulemap_loop n rm i k = (if i \<le> k \<and> k < 8 then Some (of_bool (bit n k)) else rm k)"
proof (induction n rm i rule: rulemap_loop.induct)
  case (1 ruleNum rm i)
  show ?case
  proof (cases "i < 8")
    case True
    define v where "v = js_and (js_sar ruleNum i) 1"
    have v: "v = of_bool (bit ruleNum i)"
      using True by (simp add: v_def js_bit)
    have "rulemap_loop ruleNum rm i k = rulemap_loop ruleNum (rm(i \<mapsto> v)) (i + 1) k"
      using True by (subst rulemap_loop.simps) (simp add: v_def)
    also have "\<dots> = (if i + 1 \<le> k \<and> k < 8 then Some (of_bool (bit ruleNum k))
                      else (rm(i \<mapsto> v)) k)"
      using "1.IH" [OF True] by (simp only: v_def)
    also have "\<dots> = (if i \<le> k \<and> k < 8 then Some (of_bool (bit ruleNum k)) else rm k)"
      using True by (auto simp: v)
    finally show ?thesis .
  next
    case False
    then show ?thesis by (subst rulemap_loop.simps) auto
  qed
qed

lemma rulemap_val: "rulemap n k = (if k < 8 then Some (of_bool (bit n k)) else None)"
  by (simp add: rulemap_def rulemap_loop_val)

lemma length_inner_loop: "length (inner_loop rm prev cur c) = length cur"
  by (induction rm prev cur c rule: inner_loop.induct)
     (subst inner_loop.simps, simp)

lemma inner_loop_eq:
  "length cur = COLS \<Longrightarrow> c \<le> COLS \<Longrightarrow>
   inner_loop rm prev cur c = take c cur @ map (cell rm prev) [c..<COLS]"
proof (induction rm prev cur c rule: inner_loop.induct)
  case (1 rm prev cur c)
  show ?case
  proof (cases "c < COLS")
    case True
    have "inner_loop rm prev cur c = inner_loop rm prev (cur[c := cell rm prev c]) (c + 1)"
      using True by (subst inner_loop.simps) simp
    also have "\<dots> = take (c + 1) (cur[c := cell rm prev c]) @ map (cell rm prev) [c + 1..<COLS]"
      using "1.IH" [OF True] "1.prems" True by simp
    also have "take (c + 1) (cur[c := cell rm prev c]) = take c cur @ [cell rm prev c]"
      using "1.prems" True by (simp add: take_Suc_conv_app_nth)
    finally show ?thesis using True by (simp add: upt_conv_Cons)
  next
    case False
    then show ?thesis using "1.prems" by (subst inner_loop.simps) simp
  qed
qed

lemma inner_loop_0: "length cur = COLS \<Longrightarrow> inner_loop rm prev cur 0 = map (cell rm prev) [0..<COLS]"
  by (simp add: inner_loop_eq)


lemma length_outer_loop: "length (outer_loop rm g r) = length g"
  by (induction rm g r rule: outer_loop.induct)
     (subst outer_loop.simps, simp)

lemma outer_loop_below: "i < r \<Longrightarrow> outer_loop rm g r ! i = g ! i"
proof (induction rm g r rule: outer_loop.induct)
  case (1 rm g r)
  show ?case
  proof (cases "r < ROWS")
    case True
    then show ?thesis
      using "1.IH" [OF True] "1.prems" by (subst outer_loop.simps) simp
  next
    case False
    then show ?thesis by (subst outer_loop.simps) simp
  qed
qed

lemma outer_loop_step:
  "length g = ROWS \<Longrightarrow> 0 < r \<Longrightarrow> r \<le> i \<Longrightarrow> i < ROWS \<Longrightarrow>
   outer_loop rm g r ! i =
     inner_loop rm (outer_loop rm g r ! (i - 1)) (g ! i) 0"
proof (induction rm g r rule: outer_loop.induct)
  case (1 rm g r)
  let ?g' = "g[r := inner_loop rm (g ! (r - 1)) (g ! r) 0]"
  have r: "r < ROWS" using "1.prems" by simp
  have unf: "outer_loop rm g r = outer_loop rm ?g' (r + 1)"
    using r by (subst outer_loop.simps) simp
  show ?case
  proof (cases "i = r")
    case True
    have "outer_loop rm ?g' (r + 1) ! r = ?g' ! r"
      by (rule outer_loop_below) simp
    moreover have "outer_loop rm ?g' (r + 1) ! (r - 1) = ?g' ! (r - 1)"
      by (rule outer_loop_below) simp
    ultimately show ?thesis
      using True unf "1.prems" r by simp
  next
    case False
    then have "r + 1 \<le> i" using "1.prems" by simp
    from "1.IH" [OF r _ _ this "1.prems"(4)] "1.prems"(1)
    have "outer_loop rm ?g' (r + 1) ! i =
            inner_loop rm (outer_loop rm ?g' (r + 1) ! (i - 1)) (?g' ! i) 0"
      by simp
    then show ?thesis using unf False by simp
  qed
qed


lemma COLS_pos: "0 < COLS"
  by (simp add: COLS_def)

lemma ROWS_pos: "0 < ROWS"
  by (simp add: ROWS_def)

lemma length_initial_grid: "length initial_grid = ROWS"
  by (simp add: initial_grid_def Let_def)

lemma initial_grid_0: "initial_grid ! 0 = (replicate COLS 0)[COLS div 2 := 1]"
  using ROWS_pos by (simp add: initial_grid_def Let_def)

lemma initial_grid_row_length: "i < ROWS \<Longrightarrow> length (initial_grid ! i) = COLS"
  by (cases i) (simp_all add: initial_grid_def Let_def)

lemma seed_row_eq: "(replicate COLS 0)[COLS div 2 := 1] = spec_seed_row"
  by (rule nth_equalityI) (auto simp: spec_seed_row_def nth_list_update)

lemma grid_length: "length (buildSVG_grid n) = ROWS"
  by (simp add: buildSVG_grid_def length_outer_loop length_initial_grid)

lemma grid_row_0: "buildSVG_grid n ! 0 = (replicate COLS 0)[COLS div 2 := 1]"
  by (simp add: buildSVG_grid_def outer_loop_below initial_grid_0)

lemma grid_row_step:
  assumes "0 < r" "r < ROWS"
  shows "buildSVG_grid n ! r = map (cell (rulemap n) (buildSVG_grid n ! (r - 1))) [0..<COLS]"
proof -
  have "buildSVG_grid n ! r =
          inner_loop (rulemap n) (buildSVG_grid n ! (r - 1)) (initial_grid ! r) 0"
    unfolding buildSVG_grid_def
    using assms by (intro outer_loop_step) (simp_all add: length_initial_grid)
  then show ?thesis
    using assms by (simp add: inner_loop_0 initial_grid_row_length)
qed

lemma grid_row_length: "r < ROWS \<Longrightarrow> length (buildSVG_grid n ! r) = COLS"
  by (cases "r = 0") (simp_all add: grid_row_0 grid_row_step)

lemma to_u8_rulemap: "to_u8 (rulemap n k) = (if k < 8 \<and> bit n k then 1 else 0)"
  by (simp add: to_u8_def rulemap_val)

lemma binary_cell: "cell (rulemap n) prev c = 0 \<or> cell (rulemap n) prev c = 1"
  by (simp add: cell_def Let_def to_u8_rulemap)

lemma binary_grid_row: "r < ROWS \<Longrightarrow> binary_row (buildSVG_grid n ! r)"
proof (cases "r = 0")
  case True
  have "set ((replicate COLS (0 :: 8 word))[COLS div 2 := 1]) \<subseteq> {0, 1}"
    by (rule order_trans [OF set_update_subset_insert]) auto
  then show ?thesis using True by (auto simp: binary_row_def grid_row_0)
next
  case False
  assume "r < ROWS"
  with False show ?thesis
    using binary_cell by (auto simp: binary_row_def grid_row_step)
qed

lemma code_binary:
  assumes "l = 0 \<or> l = 1" "c = 0 \<or> c = 1" "r = 0 \<or> r = 1"
  shows "(push_bit 2 (unat (l :: 8 word)) OR push_bit 1 (unat (c :: 8 word))) OR unat (r :: 8 word)
         = spec_code l c r \<and> spec_code l c r < 8"
  using assms by (auto simp: spec_code_def)

lemma wrap_left: "c < COLS \<Longrightarrow> nat ((int c - 1 + int COLS) mod int COLS) = nat ((int c - 1) mod int COLS)"
  by simp

lemma wrap_left_lt: "nat ((int c - 1) mod int COLS) < COLS"
  using COLS_pos by (simp add: nat_less_iff)

lemma cell_spec:
  assumes "binary_row prev" "length prev = COLS" "c < COLS"
  shows "cell (rulemap n) prev c = spec_next_cell n prev c"
proof -
  let ?l = "nat ((int c - 1) mod int COLS)" and ?r = "(c + 1) mod COLS"
  have lt: "?l < COLS" "?r < COLS" using COLS_pos wrap_left_lt by simp_all
  have b: "prev ! ?l = 0 \<or> prev ! ?l = 1" "prev ! c = 0 \<or> prev ! c = 1"
          "prev ! ?r = 0 \<or> prev ! ?r = 1"
    using assms lt by (auto simp: binary_row_def)
  from code_binary [OF b] lt assms show ?thesis
    by (simp add: cell_def Let_def u8_read_def to_u8_rulemap spec_next_cell_def spec_mapping_def)
qed

lemma spec_grid_buildSVG: "spec_grid n (buildSVG_grid n)"
  unfolding spec_grid_def
proof (intro conjI ballI)
  show "length (buildSVG_grid n) = ROWS" by (rule grid_length)
  show "buildSVG_grid n ! 0 = spec_seed_row" by (simp add: grid_row_0 seed_row_eq)
next
  fix r assume "r \<in> {0..<ROWS}"
  then show "length (buildSVG_grid n ! r) = COLS" by (simp add: grid_row_length)
next
  fix r c assume r: "r \<in> {1..<ROWS}" and c: "c \<in> {0..<COLS}"
  then have "buildSVG_grid n ! r ! c = cell (rulemap n) (buildSVG_grid n ! (r - 1)) c"
    by (simp add: grid_row_step)
  also have "\<dots> = spec_next_cell n (buildSVG_grid n ! (r - 1)) c"
    using r c by (intro cell_spec binary_grid_row grid_row_length) auto
  finally show "buildSVG_grid n ! r ! c = spec_next_cell n (buildSVG_grid n ! (r - 1)) c" .
qed

lemma spec_grid_unique_row:
  assumes "spec_grid n g" "r < ROWS"
  shows "g ! r = buildSVG_grid n ! r"
  using assms(2)
proof (induction r)
  case 0
  then show ?case using assms(1) by (simp add: spec_grid_def grid_row_0 seed_row_eq)
next
  case (Suc r)
  then have IH: "g ! r = buildSVG_grid n ! r" by simp
  show ?case
  proof (rule nth_equalityI)
    show "length (g ! Suc r) = length (buildSVG_grid n ! Suc r)"
      using assms(1) Suc.prems by (simp add: spec_grid_def grid_row_length)
  next
    fix c assume "c < length (g ! Suc r)"
    then have c: "c < COLS" using assms(1) Suc.prems by (simp add: spec_grid_def)
    have "g ! Suc r ! c = spec_next_cell n (g ! r) c"
      using assms(1) Suc.prems c by (simp add: spec_grid_def)
    also have "\<dots> = buildSVG_grid n ! Suc r ! c"
      using spec_grid_buildSVG [of n] Suc.prems c IH by (simp add: spec_grid_def)
    finally show "g ! Suc r ! c = buildSVG_grid n ! Suc r ! c" .
  qed
qed

lemma rulemap_mod: "rulemap (n mod 256) = rulemap n"
proof
  fix k
  have "n mod 256 = take_bit 8 n" by (simp add: take_bit_eq_mod)
  then show "rulemap (n mod 256) k = rulemap n k"
    by (simp add: rulemap_val bit_take_bit_iff)
qed


text \<open>
  Claim C1. For every rule in \<open>[0,255]\<close>, the grid computed by \<open>buildSVG\<close> is the one
  and only grid that the specification describes: \<open>ROWS\<close> rows of \<open>COLS\<close> cells, row 0
  the seed row, and every cell of a later row equal to bit \<open>i\<close> of the rule, where \<open>i\<close>
  is the code (left cell bit 2, centre bit 1, right bit 0) of the cells of the previous
  row at columns \<open>(c-1) mod COLS\<close>, \<open>c\<close> and \<open>(c+1) mod COLS\<close>. The grid is a function of
  the rule alone.
\<close>

theorem C1_grid_is_the_unique_spec_grid:
  assumes "0 \<le> rule" "rule \<le> 255"
  shows "spec_grid rule g \<longleftrightarrow> g = buildSVG_grid rule"
proof
  assume s: "spec_grid rule g"
  show "g = buildSVG_grid rule"
  proof (rule nth_equalityI)
    show "length g = length (buildSVG_grid rule)"
      using s by (simp add: spec_grid_def grid_length)
  next
    fix r assume "r < length g"
    then have "r < ROWS" using s by (simp add: spec_grid_def)
    then show "g ! r = buildSVG_grid rule ! r" by (rule spec_grid_unique_row [OF s])
  qed
next
  assume "g = buildSVG_grid rule"
  then show "spec_grid rule g" by (simp add: spec_grid_buildSVG)
qed

theorem C1_grid_witness:
  "(0::int) \<le> 90 \<and> (90::int) \<le> 255 \<and> spec_grid 90 (buildSVG_grid 90)"
  using C1_grid_is_the_unique_spec_grid [of 90 "buildSVG_grid 90"] by simp


text \<open>
  Claim C2. Row 0 of the grid has exactly one active cell, of value 1, at column
  \<open>floor(COLS/2) = 100\<close> with \<open>COLS = 201\<close>; every other cell of row 0 is 0. This holds for
  every rule.
\<close>

theorem C2_row0_single_seed:
  "buildSVG_grid rule ! 0 = (replicate 201 0)[100 := 1] \<and>
   COLS = 201 \<and> COLS div 2 = 100 \<and>
   {c. c < length (buildSVG_grid rule ! 0) \<and> buildSVG_grid rule ! 0 ! c = 1} = {COLS div 2} \<and>
   length (filter (\<lambda>x. x \<noteq> 0) (buildSVG_grid rule ! 0)) = 1"
proof -
  have r0: "buildSVG_grid rule ! 0 = (replicate 201 0)[100 := 1]"
    by (simp add: grid_row_0 COLS_def)
  have s: "{c. c < length (buildSVG_grid rule ! 0) \<and> buildSVG_grid rule ! 0 ! c = 1} = {COLS div 2}"
    by (auto simp: r0 COLS_def nth_list_update)
  have "(replicate 201 (0 :: 8 word))[100 := 1] = replicate 100 0 @ 1 # replicate 100 0"
    by (rule nth_equalityI) (auto simp: nth_list_update nth_append nth_Cons')
  then have f: "length (filter (\<lambda>x. x \<noteq> 0) (buildSVG_grid rule ! 0)) = 1"
    by (simp add: r0)
  show ?thesis using r0 s f by (simp add: COLS_def)
qed

text \<open>
  Claim C10. Only the low 8 bits of the rule number reach the grid: the grid for a rule
  number \<open>n\<close> is the grid for \<open>n mod 256\<close>, for every integer \<open>n\<close> (so for every
  non-negative one, inside \<open>[0,255]\<close> or not).
\<close>

theorem C10_only_low_8_bits: "buildSVG_grid n = buildSVG_grid (n mod 256)"
  by (simp add: buildSVG_grid_def rulemap_mod)

section \<open>Properties of the shown history\<close>

lemma slice_from_neg: "0 < n \<Longrightarrow> slice_from xs (- int n) = drop (length xs - n) xs"
  by (auto simp: slice_from_def clamp_index_def max_def nat_diff_distrib')

lemma slice_from_SHOWN_CAP: "slice_from xs (- int SHOWN_CAP) = drop (length xs - SHOWN_CAP) xs"
  by (rule slice_from_neg) (simp add: SHOWN_CAP_def)

lemma recordShown_eq: "recordShown h p = drop (Suc (length h) - SHOWN_CAP) (h @ [p])"
  by (simp add: recordShown_def Let_def slice_from_SHOWN_CAP)

lemma length_recordShown: "length (recordShown h p) = min (Suc (length h)) SHOWN_CAP"
  by (simp add: recordShown_eq)

lemma recordShown_drop:
  "recordShown (drop (length xs - SHOWN_CAP) xs) p
     = drop (length (xs @ [p]) - SHOWN_CAP) (xs @ [p])"
proof (cases "length xs \<le> SHOWN_CAP")
  case True
  then show ?thesis by (simp add: recordShown_eq)
next
  case False
  then have "Suc (length xs) - SHOWN_CAP = Suc (length xs - SHOWN_CAP)" by simp
  with False show ?thesis
    by (simp add: recordShown_eq SHOWN_CAP_def min_def)
qed

lemma foldl_recordShown:
  "foldl recordShown (recordShown h p) ps = drop (length (h @ p # ps) - SHOWN_CAP) (h @ p # ps)"
proof (induction ps rule: rev_induct)
  case Nil
  then show ?case by (simp add: recordShown_eq)
next
  case (snoc q ps)
  have "foldl recordShown (recordShown h p) (ps @ [q])
          = recordShown (drop (length (h @ p # ps) - SHOWN_CAP) (h @ p # ps)) q"
    using snoc.IH by simp
  also have "\<dots> = drop (length ((h @ p # ps) @ [q]) - SHOWN_CAP) ((h @ p # ps) @ [q])"
    by (rule recordShown_drop)
  finally show ?case by simp
qed

text \<open>
  Claim C5. \<open>recordShown\<close> appends the picked name and, when the result is longer than
  \<open>SHOWN_CAP = 25\<close>, keeps its last 25 entries: the result is a suffix of the history
  with the pick appended (the oldest entries are the ones dropped), it has
  \<open>min (length + 1) 25\<close> entries, and applying it again and again, for any further picks
  \<open>ps\<close>, gives the last 25 entries of everything recorded, never more than 25.
\<close>

theorem C5_recordShown_bounded_fifo:
  "SHOWN_CAP = 25 \<and>
   recordShown h p = (if length (h @ [p]) > 25 then drop (length (h @ [p]) - 25) (h @ [p]) else h @ [p]) \<and>
   suffix (recordShown h p) (h @ [p]) \<and>
   length (recordShown h p) = min (length h + 1) 25 \<and>
   foldl recordShown (recordShown h p) ps = drop (length (h @ p # ps) - 25) (h @ p # ps) \<and>
   length (foldl recordShown (recordShown h p) ps) \<le> 25"
proof -
  have 1: "recordShown h p = drop (length (h @ [p]) - 25) (h @ [p])"
    by (simp add: recordShown_eq SHOWN_CAP_def)
  have 2: "foldl recordShown (recordShown h p) ps = drop (length (h @ p # ps) - 25) (h @ p # ps)"
    using foldl_recordShown [of h p ps] by (simp add: SHOWN_CAP_def)
  have 3: "suffix (recordShown h p) (h @ [p])"
    unfolding 1 by (rule suffix_drop)
  have 4: "length (foldl recordShown (recordShown h p) ps) \<le> 25"
    unfolding 2 by simp
  have 5: "length (recordShown h p) = min (length h + 1) 25"
    unfolding 1 by simp
  show ?thesis
    using 1 2 3 4 5 by (simp add: SHOWN_CAP_def)
qed

section \<open>Properties of the library cap\<close>

lemma prune_loop_eq:
  "prune_loop fs dir pr =
     (drop (length fs - LIBRARY_CAP) fs,
      filter (\<lambda>f. f \<notin> set (take (length fs - LIBRARY_CAP) fs)) dir,
      pr @ take (length fs - LIBRARY_CAP) fs)"
proof (induction fs dir pr rule: prune_loop.induct)
  case (1 libraryFiles dir pruned)
  show ?case
  proof (cases "length libraryFiles > LIBRARY_CAP")
    case False
    then show ?thesis by (subst prune_loop.simps) simp
  next
    case True
    then obtain oldest rest where fs: "libraryFiles = oldest # rest"
      by (cases libraryFiles) auto
    have k: "length libraryFiles - LIBRARY_CAP = Suc (length rest - LIBRARY_CAP)"
      using True fs by auto
    have t: "take (length libraryFiles - LIBRARY_CAP) libraryFiles
               = oldest # take (length rest - LIBRARY_CAP) rest"
      unfolding k by (simp add: fs)
    have d: "drop (length libraryFiles - LIBRARY_CAP) libraryFiles
               = drop (length rest - LIBRARY_CAP) rest"
      unfolding k by (simp add: fs)
    have "prune_loop libraryFiles dir pruned
            = prune_loop rest (unlink oldest dir) (pruned @ [oldest])"
      using True fs by (subst prune_loop.simps) simp
    also have "\<dots> = (drop (length rest - LIBRARY_CAP) rest,
        filter (\<lambda>f. f \<notin> set (take (length rest - LIBRARY_CAP) rest)) (unlink oldest dir),
        (pruned @ [oldest]) @ take (length rest - LIBRARY_CAP) rest)"
      by (rule "1.IH" [OF True fs])
    also have "\<dots> = (drop (length libraryFiles - LIBRARY_CAP) libraryFiles,
        filter (\<lambda>f. f \<notin> set (take (length libraryFiles - LIBRARY_CAP) libraryFiles)) dir,
        pruned @ take (length libraryFiles - LIBRARY_CAP) libraryFiles)"
      unfolding t d by (auto simp: unlink_def removeAll_filter_not_eq intro: filter_cong)
    finally show ?thesis .
  qed
qed

lemma sorted_list_library: "sorted (list_library dir)"
  by (simp add: list_library_def)

lemma mset_list_library:
  "mset (list_library dir) = mset (filter (\<lambda>f. endsWith f ''.svg'') dir)"
  by (simp add: list_library_def)

lemma sorted_take_le_drop:
  assumes "sorted xs" "x \<in> set (take k xs)" "y \<in> set (drop k xs)"
  shows "x \<le> y"
proof -
  have "sorted (take k xs @ drop k xs)" using assms(1) by simp
  then show ?thesis using assms(2,3) unfolding sorted_append by blast
qed

lemma list_library_after:
  assumes "distinct dir"
  shows "list_library (filter (\<lambda>f. f \<notin> set (take k (list_library dir))) dir)
           = drop k (list_library dir)"
proof -
  let ?s = "list_library dir"
  have d: "distinct ?s" using assms by (simp add: list_library_def)
  then have "distinct (take k ?s @ drop k ?s)" by simp
  then have disj: "set (take k ?s) \<inter> set (drop k ?s) = {}" 
    unfolding distinct_append by blast
  have "list_library (filter (\<lambda>f. f \<notin> set (take k ?s)) dir)
          = filter (\<lambda>f. f \<notin> set (take k ?s)) ?s"
    unfolding list_library_def
    by (simp add: filter_sort conj_commute)
  also have "\<dots> = filter (\<lambda>f. f \<notin> set (take k ?s)) (take k ?s @ drop k ?s)" by simp
  also have "\<dots> = drop k ?s"
    unfolding filter_append using disj by (auto simp: filter_empty_conv filter_id_conv)
  finally show ?thesis .
qed

text \<open>
  Claim C3. For every directory listing, of any length, the prune step sorts the
  artifacts (the entries ending in \<open>.svg\<close>) lexicographically into \<open>s\<close> and removes
  the first entry while more than \<open>LIBRARY_CAP = 50\<close> are left: with \<open>n\<close> the number of
  artifacts, the names deleted are the first \<open>n - 50\<close> of \<open>s\<close>, the names kept are the
  last \<open>min n 50\<close> of \<open>s\<close>, so at most 50, every deleted name is below every kept one,
  and the directory afterwards holds the entries that were not deleted; its artifacts,
  listed again, are exactly the kept ones (directory entries are distinct).
\<close>

theorem C3_prune_keeps_largest_50:
  "(let s = list_library dir; n = length s;
        kept = fst (prune dir); dir' = fst (snd (prune dir)); deleted = snd (snd (prune dir))
    in LIBRARY_CAP = 50 \<and>
       sorted s \<and> mset s = mset (filter (\<lambda>f. endsWith f ''.svg'') dir) \<and>
       deleted = take (n - 50) s \<and> kept = drop (n - 50) s \<and> s = deleted @ kept \<and>
       length kept = min n 50 \<and> length kept \<le> 50 \<and>
       (\<forall>x \<in> set deleted. \<forall>y \<in> set kept. x \<le> y) \<and>
       dir' = filter (\<lambda>f. f \<notin> set deleted) dir \<and>
       (distinct dir \<longrightarrow> list_library dir' = kept))"
proof -
  let ?s = "list_library dir"
  let ?k = "length ?s - 50"
  have p: "prune dir = (drop ?k ?s, filter (\<lambda>f. f \<notin> set (take ?k ?s)) dir, take ?k ?s)"
    by (simp add: prune_def prune_loop_eq LIBRARY_CAP_def)
  have le: "\<forall>x \<in> set (take ?k ?s). \<forall>y \<in> set (drop ?k ?s). x \<le> y"
    using sorted_take_le_drop [OF sorted_list_library] by blast
  have after: "distinct dir \<longrightarrow>
      list_library (filter (\<lambda>f. f \<notin> set (take ?k ?s)) dir) = drop ?k ?s"
    by (simp add: list_library_after)
  have len: "length (drop ?k ?s) = min (length ?s) 50" "length (drop ?k ?s) \<le> 50"
    by auto
  show ?thesis
    unfolding Let_def p fst_conv snd_conv
    using le after len
    by (simp add: LIBRARY_CAP_def sorted_list_library mset_list_library del: length_drop)
qed


theorem C3_prune_witness:
  "distinct example_dir \<and>
   snd (snd (prune example_dir)) = [''rule-003-2026-01-07T08-00-00-000.svg'',
      ''rule-006-2026-01-14T08-00-00-000.svg''] \<and>
   last (snd (snd (prune example_dir))) \<le> hd (fst (prune example_dir)) \<and>
   list_library (fst (snd (prune example_dir))) = fst (prune example_dir) \<and>
   length (fst (prune example_dir)) = 50"
proof -
  have d: "distinct example_dir"
    unfolding example_dir_def by simp
  have n: "length (list_library example_dir) = 52"
    by code_simp
  have del: "snd (snd (prune example_dir)) = [''rule-003-2026-01-07T08-00-00-000.svg'',
      ''rule-006-2026-01-14T08-00-00-000.svg'']"
    by code_simp
  note T = C3_prune_keeps_largest_50 [of example_dir, unfolded Let_def]
  from T have le: "\<forall>x \<in> set (snd (snd (prune example_dir))).
      \<forall>y \<in> set (fst (prune example_dir)). x \<le> y"
    by (elim conjE) assumption
  from T have after: "distinct example_dir \<longrightarrow>
      list_library (fst (snd (prune example_dir))) = fst (prune example_dir)"
    by (elim conjE) assumption
  from T have "length (fst (prune example_dir)) = min (length (list_library example_dir)) 50"
    by (elim conjE) assumption
  then have len: "length (fst (prune example_dir)) = 50"
    unfolding n by simp
  from after d have lib: "list_library (fst (snd (prune example_dir))) = fst (prune example_dir)"
    by (rule mp)
  have "snd (snd (prune example_dir)) \<noteq> []"
    unfolding del by simp
  then have l: "last (snd (snd (prune example_dir))) \<in> set (snd (snd (prune example_dir)))"
    by (rule last_in_set)
  have "fst (prune example_dir) \<noteq> []"
    using len by auto
  then have h: "hd (fst (prune example_dir)) \<in> set (fst (prune example_dir))"
    by (rule hd_in_set)
  from le l h have first: "last (snd (snd (prune example_dir))) \<le> hd (fst (prune example_dir))"
    by blast
  from d del first lib len show ?thesis
    by (intro conjI)
qed

section \<open>Properties of the pick\<close>

lemma random_index_less:
  assumes "0 < n" "0 \<le> u" "u < 1"
  shows "random_index u n < n"
proof -
  have "u * real n < real n" using assms by simp
  then have "\<lfloor>u * real n\<rfloor> < int n" by (simp add: floor_less_iff)
  moreover have "0 \<le> \<lfloor>u * real n\<rfloor>" using assms by simp
  ultimately show ?thesis unfolding random_index_def by linarith
qed

lemma set_available:
  "set (available libraryFiles shown) = {f \<in> set libraryFiles. Str f \<notin> set shown}"
  by (auto simp: available_def array_includes_def)

lemma set_available_Str:
  "set (available libraryFiles (map Str history)) = set libraryFiles - set history"
  by (auto simp: set_available)

lemma pool_nonempty: "libraryFiles \<noteq> [] \<Longrightarrow> pool libraryFiles shown \<noteq> []"
  by (auto simp: pool_def)

lemma set_pool:
  "set (pool libraryFiles shown) =
     (if set (available libraryFiles shown) \<noteq> {} then set (available libraryFiles shown)
      else set libraryFiles)"
  by (simp add: pool_def)

lemma pick_in_pool:
  assumes "libraryFiles \<noteq> []" "0 \<le> u" "u < 1"
  shows "\<exists>f. pick libraryFiles shown u = Some f \<and> f \<in> set (pool libraryFiles shown)"
proof -
  let ?p = "pool libraryFiles shown"
  have "0 < length ?p" using pool_nonempty [OF assms(1)] by simp
  then have "random_index u (length ?p) < length ?p"
    using assms(2,3) by (rule random_index_less)
  then show ?thesis by (simp add: pick_def Let_def)
qed

text \<open>
  Claim C4. For every non-empty library and every shown history, whatever
  \<open>Math.random\<close> returns (a number \<open>u\<close> with \<open>0 \<le> u < 1\<close>), \<open>pick\<close> returns a file
  name and never \<open>undefined\<close>: a member of the library that is not in the history when
  there is one (so, when exactly one library file is not in the history, that file,
  for every \<open>u\<close>), and otherwise a member of the library.
\<close>

theorem C4_pick_avoids_history:
  assumes "libraryFiles \<noteq> []" "0 \<le> u" "u < 1"
  shows "\<exists>f. pick libraryFiles (map Str history) u = Some f \<and>
           (if set libraryFiles - set history \<noteq> {}
            then f \<in> set libraryFiles - set history
            else f \<in> set libraryFiles) \<and>
           (\<forall>d. set libraryFiles - set history = {d} \<longrightarrow> f = d)"
proof -
  from pick_in_pool [OF assms, of "map Str history"]
  obtain f where f: "pick libraryFiles (map Str history) u = Some f"
    and m: "f \<in> set (pool libraryFiles (map Str history))" by blast
  from m have "if set libraryFiles - set history \<noteq> {}
            then f \<in> set libraryFiles - set history
            else f \<in> set libraryFiles"
    unfolding set_pool set_available_Str by (simp split: if_splits)
  moreover from this have "\<forall>d. set libraryFiles - set history = {d} \<longrightarrow> f = d"
    by (auto split: if_splits)
  ultimately show ?thesis using f by blast
qed

theorem C4_pick_witness:
  "[''A.svg'', ''B.svg'', ''C.svg'', ''D.svg''] \<noteq> [] \<and> (0::real) \<le> 7 / 10 \<and> (7 / 10 :: real) < 1 \<and>
   pick [''A.svg'', ''B.svg'', ''C.svg'', ''D.svg''] (map Str [''A.svg'', ''B.svg'', ''C.svg'']) (7 / 10)
     = Some ''D.svg''"
proof -
  have s: "set [''A.svg'', ''B.svg'', ''C.svg'', ''D.svg''] - set [''A.svg'', ''B.svg'', ''C.svg'']
             = {''D.svg''}"
    by auto
  from C4_pick_avoids_history [of "[''A.svg'', ''B.svg'', ''C.svg'', ''D.svg'']" "7 / 10"
      "[''A.svg'', ''B.svg'', ''C.svg'']"] s
  show ?thesis by auto
qed

section \<open>Properties of loading the history\<close>

text \<open>
  Claim C7. When the contents of the history file do not parse as JSON
  (\<open>JSON.parse\<close> throws), the loaded history is the empty array, the same as when the
  file does not exist, and steps 4 and 5 go on as with an empty history: the pool is the
  whole library, no \<open>TypeError\<close> arises, and the history saved is the pick alone.
\<close>

theorem C7_corrupt_history_is_empty:
  assumes "JSON_parse contents = None"
  shows "load_shown JSON_parse (Some contents) = Arr [] \<and>
         load_shown JSON_parse (Some contents) = load_shown JSON_parse None \<and>
         pick_and_record libraryFiles (load_shown JSON_parse (Some contents)) u
           = pick_and_record libraryFiles (Arr []) u \<and>
         pool libraryFiles [] = libraryFiles \<and>
         pick_and_record libraryFiles (Arr []) u
           = Inr (pick libraryFiles [] u, [picked_val (pick libraryFiles [] u)])"
proof -
  have l: "load_shown JSON_parse (Some contents) = Arr []"
    using assms by (simp add: load_shown_def)
  have p: "pool libraryFiles [] = libraryFiles"
    by (cases libraryFiles) (simp_all add: pool_def available_def array_includes_def)
  have r: "recordShown [] x = [x]" for x :: jsval
    by (simp add: recordShown_def SHOWN_CAP_def)
  have n: "load_shown JSON_parse None = Arr []"
    by (simp add: load_shown_def)
  show ?thesis
    by (simp add: l n p r pick_and_record_def Let_def)
qed

theorem C7_corrupt_history_witness:
  "(\<lambda>s. if s = ''[]'' then Some (Arr []) else None) ''[1, 2'' = None \<and>
   load_shown (\<lambda>s. if s = ''[]'' then Some (Arr []) else None) (Some ''[1, 2'') = Arr [] \<and>
   pick_and_record [''A.svg'', ''B.svg'']
     (load_shown (\<lambda>s. if s = ''[]'' then Some (Arr []) else None) (Some ''[1, 2'')) (7 / 10)
     = Inr (Some ''B.svg'', [Str ''B.svg''])"
proof -
  have h: "(\<lambda>s. if s = ''[]'' then Some (Arr []) else None) ''[1, 2'' = None"
    by simp
  have pk: "pick [''A.svg'', ''B.svg''] [] (7 / 10) = Some ''B.svg''"
    by (simp add: pick_def pool_def available_def array_includes_def random_index_def Let_def)
  from C7_corrupt_history_is_empty
    [of "\<lambda>s. if s = ''[]'' then Some (Arr []) else None" "''[1, 2''"
        "[''A.svg'', ''B.svg'']" "7 / 10"]
  show ?thesis by (simp add: pk picked_val_def)
qed

section \<open>Properties of the artifact name\<close>

lemma of_char_digit_char: "d < 10 \<Longrightarrow> of_char (digit_char d) = 48 + d"
  by (simp add: digit_char_def)

lemma is_digit_iff: "is_digit c \<longleftrightarrow> 48 \<le> (of_char c :: nat) \<and> (of_char c :: nat) \<le> 57"
  by (simp add: is_digit_def less_eq_char_def)

lemma is_digit_digit_char: "d < 10 \<Longrightarrow> is_digit (digit_char d)"
  by (simp add: is_digit_iff of_char_digit_char)

lemma digit_val_digit_char: "d < 10 \<Longrightarrow> digit_val (digit_char d) = d"
  by (simp add: digit_val_def of_char_digit_char)

lemma decimal_digits: "c \<in> set (decimal n) \<Longrightarrow> is_digit c"
proof (induction n rule: decimal.induct)
  case (1 n)
  show ?case
  proof (cases "n < 10")
    case True
    then show ?thesis
      using "1.prems" by (subst (asm) decimal.simps) (simp add: is_digit_digit_char)
  next
    case False
    then show ?thesis
      using "1.prems" "1.IH" 
      by (subst (asm) decimal.simps) (auto simp: is_digit_digit_char)
  qed
qed

lemma decimal_nonempty: "decimal n \<noteq> []"
  by (subst decimal.simps) simp

lemma parseInt_digits_snoc:
  "parseInt_digits (ds @ [c]) = 10 * parseInt_digits ds + digit_val c"
  by (simp add: parseInt_digits_def)

lemma parseInt_digits_decimal: "parseInt_digits (decimal n) = n"
proof (induction n rule: decimal.induct)
  case (1 n)
  show ?case
  proof (cases "n < 10")
    case True
    then show ?thesis
      by (subst decimal.simps) (simp add: parseInt_digits_def digit_val_digit_char)
  next
    case False
    then have "parseInt_digits (decimal n) = 10 * (n div 10) + n mod 10"
      using "1.IH" by (subst decimal.simps) (simp add: parseInt_digits_snoc digit_val_digit_char)
    then show ?thesis by simp
  qed
qed

lemma parseInt_digits_zeros:
  "parseInt_digits (replicate k (CHR ''0'') @ ds) = parseInt_digits ds"
  by (induction k) (simp_all add: parseInt_digits_def digit_val_def)

lemma is_digit_zero: "is_digit (CHR ''0'')"
  by (simp add: is_digit_iff)

lemma not_is_digit_minus: "\<not> is_digit (CHR ''-'')"
  by (simp add: is_digit_iff)

lemma padStart_digits:
  "c \<in> set (padStart (decimal n) k (CHR ''0'')) \<Longrightarrow> is_digit c"
  by (auto simp: padStart_def is_digit_zero decimal_digits)

lemma padStart_nonempty: "padStart (decimal n) k c \<noteq> []"
  by (simp add: padStart_def decimal_nonempty)

lemma parseInt_digits_padStart:
  "parseInt_digits (padStart (decimal n) k (CHR ''0'')) = n"
  by (simp add: padStart_def parseInt_digits_zeros parseInt_digits_decimal)

lemma match_rule_at_start:
  assumes "\<forall>c \<in> set ds. is_digit c" "ds \<noteq> []"
  shows "match_rule (''rule-'' @ ds @ CHR ''-'' # rest) = Some ds"
proof -
  have "takeWhile is_digit (ds @ CHR ''-'' # rest) = ds"
    using assms(1) by (simp add: takeWhile_append2 not_is_digit_minus)
  then show ?thesis using assms(2) by simp
qed

lemma length_decimal: "n < 1000 \<Longrightarrow> length (decimal n) \<le> 3"
  by (subst decimal.simps, subst decimal.simps, subst decimal.simps) auto

text \<open>
  Claim C9. For every rule in \<open>[0,255]\<close> and every timestamp, the name of the new
  artifact is \<open>rule-\<close>, the rule as exactly three decimal digits, a dash, the timestamp
  and \<open>.svg\<close>; the expression of step 7 matches those three digits and reads the rule
  number back exactly.
\<close>

theorem C9_rule_round_trip:
  assumes "0 \<le> rule" "rule \<le> 255"
  shows "pickedRule (newFilename rule timestamp) = Inr (nat rule) \<and>
         (\<exists>ds. newFilename rule timestamp = ''rule-'' @ ds @ ''-'' @ timestamp @ ''.svg'' \<and>
               length ds = 3 \<and> (\<forall>c \<in> set ds. is_digit c) \<and>
               match_rule (newFilename rule timestamp) = Some ds \<and>
               parseInt_digits ds = nat rule)"
proof -
  let ?ds = "padStart (decimal (nat rule)) 3 (CHR ''0'')"
  have name: "newFilename rule timestamp = ''rule-'' @ ?ds @ CHR ''-'' # (timestamp @ ''.svg'')"
    using assms by (simp add: newFilename_def String_of_def)
  have dig: "\<forall>c \<in> set ?ds. is_digit c" using padStart_digits by blast
  have m: "match_rule (newFilename rule timestamp) = Some ?ds"
    unfolding name by (rule match_rule_at_start [OF dig padStart_nonempty])
  have v: "parseInt_digits ?ds = nat rule" by (rule parseInt_digits_padStart)
  have "length (decimal (nat rule)) \<le> 3" using assms by (intro length_decimal) simp
  then have len: "length ?ds = 3" by (simp add: padStart_def)
  have "pickedRule (newFilename rule timestamp) = Inr (nat rule)"
    by (simp add: pickedRule_def m v)
  moreover have "newFilename rule timestamp = ''rule-'' @ ?ds @ ''-'' @ timestamp @ ''.svg''"
    using name by simp
  ultimately show ?thesis using len dig m v by blast
qed

theorem C9_rule_round_trip_witness:
  "(0::int) \<le> 30 \<and> (30::int) \<le> 255 \<and>
   newFilename 30 ''2026-01-31T08-00-00-000'' = ''rule-030-2026-01-31T08-00-00-000.svg'' \<and>
   pickedRule ''rule-030-2026-01-31T08-00-00-000.svg'' = Inr 30"
proof -
  have f: "newFilename 30 ''2026-01-31T08-00-00-000'' = ''rule-030-2026-01-31T08-00-00-000.svg''"
    by code_simp
  from C9_rule_round_trip [of 30 "''2026-01-31T08-00-00-000''"] show ?thesis
    unfolding f by simp
qed

section \<open>Properties of the document step\<close>

lemma index_from_none: "index_from pat s i = - 1 \<longleftrightarrow> \<not> sublist pat s"
  by (induction s arbitrary: i) (auto simp: sublist_Cons_right)

lemma index_from_first:
  "first_occurrence pat s k \<Longrightarrow> index_from pat s i = int (i + k)"
proof (induction s arbitrary: i k)
  case Nil
  then show ?case by (simp add: first_occurrence_def)
next
  case (Cons c cs)
  show ?case
  proof (cases k)
    case 0
    then show ?thesis using Cons.prems by (simp add: first_occurrence_def)
  next
    case (Suc k')
    have np: "\<not> prefix pat (c # cs)"
      using Cons.prems Suc by (auto simp: first_occurrence_def dest: bspec [where x = 0])
    have "first_occurrence pat cs k'"
      using Cons.prems Suc
      by (auto simp: first_occurrence_def dest: bspec [where x = "Suc j" for j])
    from Cons.IH [OF this, of "i + 1"] np Suc show ?thesis by simp
  qed
qed

lemma first_occurrence_exists:
  "sublist pat s \<Longrightarrow> \<exists>k. first_occurrence pat s k"
proof (induction s)
  case Nil
  then show ?case by (simp add: first_occurrence_def)
next
  case (Cons c cs)
  show ?case
  proof (cases "prefix pat (c # cs)")
    case True
    then have "first_occurrence pat (c # cs) 0" by (simp add: first_occurrence_def)
    then show ?thesis ..
  next
    case False
    then have "sublist pat cs" using Cons.prems by (simp add: sublist_Cons_right)
    then obtain k where k: "first_occurrence pat cs k" using Cons.IH by blast
    have "first_occurrence pat (c # cs) (Suc k)"
      unfolding first_occurrence_def
    proof (intro conjI ballI)
      fix j assume "j \<in> {0..<Suc k}"
      then show "\<not> prefix pat (drop j (c # cs))"
        using k False by (cases j) (auto simp: first_occurrence_def)
    qed (use k in \<open>auto simp: first_occurrence_def\<close>)
    then show ?thesis ..
  qed
qed

lemma indexOf_none: "indexOf s pat = - 1 \<longleftrightarrow> \<not> sublist pat s"
  by (simp add: indexOf_def index_from_none)

lemma indexOf_first: "first_occurrence pat s k \<Longrightarrow> indexOf s pat = int k"
  by (simp add: indexOf_def index_from_first)

lemma first_occurrence_sublist: "first_occurrence pat s k \<Longrightarrow> sublist pat s"
  unfolding first_occurrence_def
  by (meson prefix_imp_sublist sublist_drop sublist_order.order_trans)

lemma slice_take: "slice s 0 (int k) = take k s"
  by (simp add: slice_def clamp_index_def Let_def min_def)

lemma slice_from_drop: "slice_from s (int k) = drop k s"
  by (simp add: slice_from_def clamp_index_def min_def)

lemma write_readme_missing:
  assumes "\<not> sublist BEGIN_MARKER template \<or> \<not> sublist END_MARKER template"
  shows "write_readme template rule =
           \<lparr>exit_status = 1,
            stderr = [''ERROR: Markers not found in README.template''],
            readme = None\<rparr>"
  using assms by (auto simp: write_readme_def Let_def indexOf_none)

lemma write_readme_found:
  assumes "first_occurrence BEGIN_MARKER template b" "first_occurrence END_MARKER template e"
  shows "write_readme template rule =
           \<lparr>exit_status = 0, stderr = [],
            readme = Some (take b template @ injection rule
                           @ drop (e + length END_MARKER) template)\<rparr>"
proof -
  have "indexOf template BEGIN_MARKER = int b" "indexOf template END_MARKER = int e"
    using assms by (simp_all add: indexOf_first)
  moreover have "slice_from template (int e + int (length END_MARKER))
                   = drop (e + length END_MARKER) template"
    using slice_from_drop [of template "e + length END_MARKER"] by simp
  ultimately show ?thesis
    by (simp add: write_readme_def Let_def slice_take)
qed

text \<open>
  Claim C6. When the begin marker or the end marker (or both) does not occur in the
  template, step 7 ends the run with exit status 1 and the message
  \<open>ERROR: Markers not found in README.template\<close> on the error stream, and nothing is
  written to the destination document. When both occur, the check does not abort: the
  step ends with status 0 and writes the template up to the first begin marker, the
  injection, and the template after the first end marker.
\<close>

theorem C6_markers_checked_before_write:
  "(\<not> sublist BEGIN_MARKER template \<or> \<not> sublist END_MARKER template \<longrightarrow>
      write_readme template rule =
        \<lparr>exit_status = 1,
         stderr = [''ERROR: Markers not found in README.template''],
         readme = None\<rparr>) \<and>
   (sublist BEGIN_MARKER template \<and> sublist END_MARKER template \<longrightarrow>
      exit_status (write_readme template rule) = 0 \<and>
      stderr (write_readme template rule) = [] \<and>
      (\<exists>b e. first_occurrence BEGIN_MARKER template b \<and>
             first_occurrence END_MARKER template e \<and>
             readme (write_readme template rule) =
               Some (take b template @ injection rule
                     @ drop (e + length END_MARKER) template)))"
proof (intro conjI impI)
  assume "\<not> sublist BEGIN_MARKER template \<or> \<not> sublist END_MARKER template"
  then show "write_readme template rule =
        \<lparr>exit_status = 1,
         stderr = [''ERROR: Markers not found in README.template''],
         readme = None\<rparr>"
    by (rule write_readme_missing)
next
  assume a: "sublist BEGIN_MARKER template \<and> sublist END_MARKER template"
  then obtain b e where b: "first_occurrence BEGIN_MARKER template b"
    and e: "first_occurrence END_MARKER template e"
    using first_occurrence_exists by blast
  note w = write_readme_found [OF b e, of rule]
  show "exit_status (write_readme template rule) = 0" by (simp add: w)
  show "stderr (write_readme template rule) = []" by (simp add: w)
  show "\<exists>b e. first_occurrence BEGIN_MARKER template b \<and>
             first_occurrence END_MARKER template e \<and>
             readme (write_readme template rule) =
               Some (take b template @ injection rule
                     @ drop (e + length END_MARKER) template)"
    using b e w by auto
qed

theorem C6_markers_witness:
  "\<not> sublist END_MARKER example_template_no_end \<and>
   write_readme example_template_no_end 30 =
     \<lparr>exit_status = 1,
      stderr = [''ERROR: Markers not found in README.template''],
      readme = None\<rparr> \<and>
   (sublist BEGIN_MARKER example_template \<and> sublist END_MARKER example_template) \<and>
   exit_status (write_readme example_template 30) = 0 \<and>
   readme (write_readme example_template 30) = Some (''# Hello '' @ injection 30 @ '' bye'')"
proof -
  have h0: "\<not> sublist END_MARKER example_template_no_end"
    by code_simp
  then have h1: "\<not> sublist BEGIN_MARKER example_template_no_end \<or>
      \<not> sublist END_MARKER example_template_no_end" ..
  have h2: "sublist BEGIN_MARKER example_template \<and> sublist END_MARKER example_template"
    by code_simp
  from C6_markers_checked_before_write [of example_template_no_end 30] h1
  have r1: "write_readme example_template_no_end 30 =
     \<lparr>exit_status = 1,
      stderr = [''ERROR: Markers not found in README.template''],
      readme = None\<rparr>"
    by (rule conjunct1 [THEN mp])
  from C6_markers_checked_before_write [of example_template 30] h2
  have r2: "exit_status (write_readme example_template 30) = 0"
    by blast
  have doc: "readme (write_readme example_template 30)
               = Some (''# Hello '' @ injection 30 @ '' bye'')"
    by code_simp
  from h0 r1 h2 r2 doc show ?thesis by blast
qed

lemma prefix_append_shorter:
  assumes "prefix pat (xs @ ys)" "length pat \<le> length xs"
  shows "prefix pat xs"
proof -
  from assms(1) obtain zs where "xs @ ys = pat @ zs" by (auto simp: prefix_def)
  then have "take (length pat) (xs @ ys) = pat" by simp
  then have "take (length pat) xs = pat" using assms(2) by simp
  moreover have "prefix (take (length pat) xs) xs" by (rule take_is_prefix)
  ultimately show ?thesis by simp
qed

lemma occurrence_before_block:
  assumes "j < b" "b \<le> length t" "prefix M (drop b t)" "length pat \<le> length M"
    and "prefix pat (drop j (take b t @ M @ R))"
  shows "prefix pat (drop j t)"
proof -
  obtain R' where R': "drop b t = M @ R'" using assms(3) by (auto simp: prefix_def)
  have lenP: "length (take b t) = b" using assms(2) by simp
  have 1: "drop j (take b t @ M @ R) = (drop j (take b t) @ M) @ R"
    using assms(1) lenP by simp
  have "prefix pat ((drop j (take b t) @ M) @ R)"
    using assms(5) unfolding 1 .
  moreover have "length pat \<le> length (drop j (take b t) @ M)"
    using assms(4) by simp
  ultimately have "prefix pat (drop j (take b t) @ M)"
    by (rule prefix_append_shorter)
  then have "prefix pat ((drop j (take b t) @ M) @ R')" by (rule prefix_prefix)
  moreover have "drop j (take b t @ drop b t) = (drop j (take b t) @ M) @ R'"
    unfolding R' using assms(1) lenP by simp
  ultimately show ?thesis by simp
qed

lemma prefix_drop_nth:
  assumes "prefix (x # xs) (drop j s)"
  shows "j < length s \<and> s ! j = x"
proof -
  from assms obtain zs where z: "drop j s = x # xs @ zs" by (auto simp: prefix_def)
  have j: "j < length s"
  proof (rule ccontr)
    assume "\<not> j < length s"
    then have "drop j s = []" by simp
    with z show False by simp
  qed
  then have "s ! j = hd (drop j s)" by (simp add: hd_drop_conv_nth)
  with z j show ?thesis by simp
qed

lemma BEGIN_MARKER_shape:
  "\<exists>bs. BEGIN_MARKER = CHR ''<'' # bs \<and> CHR ''<'' \<notin> set bs"
  by (simp add: BEGIN_MARKER_def)

lemma END_MARKER_shape:
  "\<exists>es. END_MARKER = CHR ''<'' # es \<and> CHR ''<'' \<notin> set es"
  by (simp add: END_MARKER_def)

lemma END_not_at_BEGIN: "\<not> prefix END_MARKER (BEGIN_MARKER @ xs)"
  by (simp add: END_MARKER_def BEGIN_MARKER_def)

lemma length_markers: "length END_MARKER \<le> length BEGIN_MARKER"
  by (simp add: END_MARKER_def BEGIN_MARKER_def)

lemma decimal_no_lt: "CHR ''<'' \<notin> set (decimal n)"
proof
  assume "CHR ''<'' \<in> set (decimal n)"
  then have "is_digit (CHR ''<'')" by (rule decimal_digits)
  then show False by (simp add: is_digit_iff)
qed

lemma injection_shape:
  "\<exists>m. injection rule = BEGIN_MARKER @ m @ END_MARKER \<and> CHR ''<'' \<notin> set m"
proof -
  let ?m = "newline @ newline
      @ (''![Wolfram Elementary Cellular Automaton '' @ em_dash @ '' Rule '' @ decimal rule
          @ ''](./ca.svg)'')
      @ newline @ newline
      @ (''*Rule '' @ decimal rule @ '' '' @ em_dash @ '' updates every 8 hours*'')
      @ newline @ newline"
  have "injection rule = BEGIN_MARKER @ ?m @ END_MARKER"
    by (simp add: injection_def)
  moreover have "CHR ''<'' \<notin> set ?m"
    by (simp add: newline_def em_dash_def decimal_no_lt)
  ultimately show ?thesis by blast
qed

lemma reinjection_markers:
  assumes fb: "first_occurrence BEGIN_MARKER t b"
    and fe: "first_occurrence END_MARKER t e"
    and be: "b < e"
  shows "first_occurrence BEGIN_MARKER (take b t @ injection rule @ S) b"
    and "first_occurrence END_MARKER (take b t @ injection rule @ S)
           (b + length (injection rule) - length END_MARKER)"
proof -
  obtain m where inj: "injection rule = BEGIN_MARKER @ m @ END_MARKER"
    and m: "CHR ''<'' \<notin> set m" using injection_shape by blast
  obtain bs where B: "BEGIN_MARKER = CHR ''<'' # bs" and bs: "CHR ''<'' \<notin> set bs"
    using BEGIN_MARKER_shape by blast
  obtain es where E: "END_MARKER = CHR ''<'' # es" using END_MARKER_shape by blast
  let ?P = "take b t"
  let ?out = "?P @ injection rule @ S"
  have b_le: "b \<le> length t" and pB: "prefix BEGIN_MARKER (drop b t)"
    and nB: "\<And>j. j < b \<Longrightarrow> \<not> prefix BEGIN_MARKER (drop j t)"
    using fb by (auto simp: first_occurrence_def)
  have nE: "\<And>j. j < e \<Longrightarrow> \<not> prefix END_MARKER (drop j t)"
    using fe by (auto simp: first_occurrence_def)
  have lenP: "length ?P = b" using b_le by simp
  have out: "?out = ?P @ BEGIN_MARKER @ (m @ END_MARKER @ S)" by (simp add: inj)
  have before: "\<not> prefix pat (drop j ?out)"
    if "j < b" "length pat \<le> length BEGIN_MARKER" "\<not> prefix pat (drop j t)" for pat j
  proof
    assume "prefix pat (drop j ?out)"
    then have "prefix pat (drop j (?P @ BEGIN_MARKER @ (m @ END_MARKER @ S)))"
      unfolding out .
    from occurrence_before_block [OF that(1) b_le pB that(2) this] that(3)
    show False by simp
  qed
  show "first_occurrence BEGIN_MARKER ?out b"
    unfolding first_occurrence_def
  proof (intro conjI ballI)
    show "b \<le> length ?out" using lenP by simp
    show "prefix BEGIN_MARKER (drop b ?out)" using lenP by (simp add: inj)
  next
    fix j assume "j \<in> {0..<b}"
    then show "\<not> prefix BEGIN_MARKER (drop j ?out)"
      using before [of j BEGIN_MARKER] nB by simp
  qed
  let ?e' = "b + length (injection rule) - length END_MARKER"
  have e': "?e' = b + length BEGIN_MARKER + length m" by (simp add: inj)
  show "first_occurrence END_MARKER ?out ?e'"
    unfolding first_occurrence_def
  proof (intro conjI ballI)
    show "?e' \<le> length ?out" using lenP by (simp add: inj)
    have "drop ?e' ?out = END_MARKER @ S"
      unfolding e' using lenP by (simp add: inj)
    then show "prefix END_MARKER (drop ?e' ?out)" by simp
  next
    fix j assume "j \<in> {0..<?e'}"
    then have j: "j < b + length BEGIN_MARKER + length m" unfolding e' by simp
    consider "j < b" | "j = b" | "b < j"
      by linarith
    then show "\<not> prefix END_MARKER (drop j ?out)"
    proof cases
      case 1
      then show ?thesis
        using before [of j END_MARKER] nE be length_markers by simp
    next
      case 2
      then have "drop j ?out = BEGIN_MARKER @ (m @ END_MARKER @ S)"
        using lenP by (simp add: inj)
      then show ?thesis by (simp add: END_not_at_BEGIN)
    next
      case 3
      let ?X = "bs @ m"
      have o: "?out = ?P @ CHR ''<'' # ?X @ (END_MARKER @ S)"
        by (simp add: inj B)
      have jx: "j - b - 1 < length ?X" using 3 j by (simp add: B)
      have "?out ! j = (CHR ''<'' # ?X @ (END_MARKER @ S)) ! (j - b)"
        unfolding o using 3 lenP by (simp add: nth_append)
      also have "\<dots> = (?X @ (END_MARKER @ S)) ! (j - b - 1)"
        using 3 by (simp add: nth_Cons')
      also have "\<dots> = ?X ! (j - b - 1)"
        using jx by (simp only: nth_append if_True)
      finally have "?out ! j \<in> set ?X" using jx nth_mem by metis
      then have ne: "?out ! j \<noteq> CHR ''<''" using bs m by auto
      show ?thesis
      proof
        assume p: "prefix END_MARKER (drop j ?out)"
        from prefix_drop_nth [OF p [unfolded E]] ne show False by simp
      qed
    qed
  qed
qed

text \<open>
  Claim C8, amended. For every document in which the first begin marker starts before
  the first end marker: injecting rule \<open>r1\<close> writes the text before the first begin
  marker, the injection for \<open>r1\<close> and the text after the first end marker; injecting rule
  \<open>r2\<close> into that output replaces the injection for \<open>r1\<close> by the injection for \<open>r2\<close>
  and leaves the text before and after it as it is, which is what injecting \<open>r2\<close> into
  the document itself writes. So the two outputs differ in the rule number only, and
  the second injection adds no marker.
\<close>

theorem C8_reinjection_replaces_block:
  assumes "first_occurrence BEGIN_MARKER t b" "first_occurrence END_MARKER t e" "b < e"
  shows "readme (write_readme t r1)
           = Some (take b t @ injection r1 @ drop (e + length END_MARKER) t) \<and>
         readme (write_readme (take b t @ injection r1 @ drop (e + length END_MARKER) t) r2)
           = Some (take b t @ injection r2 @ drop (e + length END_MARKER) t) \<and>
         readme (write_readme (take b t @ injection r1 @ drop (e + length END_MARKER) t) r2)
           = readme (write_readme t r2)"
proof -
  let ?S = "drop (e + length END_MARKER) t"
  let ?d1 = "take b t @ injection r1 @ ?S"
  have b_le: "b \<le> length t" using assms(1) by (simp add: first_occurrence_def)
  have w1: "readme (write_readme t r) = Some (take b t @ injection r @ ?S)" for r
    by (simp add: write_readme_found [OF assms(1,2)])
  note m = reinjection_markers [OF assms, of r1 ?S]
  have "readme (write_readme ?d1 r2)
          = Some (take b ?d1 @ injection r2
                  @ drop (b + length (injection r1) - length END_MARKER + length END_MARKER) ?d1)"
    by (simp add: write_readme_found [OF m])
  moreover have "take b ?d1 = take b t" using b_le by simp
  moreover have "length END_MARKER \<le> length (injection r1)"
    using injection_shape [of r1] by auto
  then have "drop (b + length (injection r1) - length END_MARKER + length END_MARKER) ?d1 = ?S"
    using b_le by simp
  ultimately have w2: "readme (write_readme ?d1 r2) = Some (take b t @ injection r2 @ ?S)"
    by simp
  show ?thesis using w1 w2 by simp
qed

theorem C8_reinjection_witness:
  "first_occurrence BEGIN_MARKER example_template 8 \<and>
   first_occurrence END_MARKER example_template 44 \<and> (8::nat) < 44 \<and>
   readme (write_readme example_template 30) = Some (''# Hello '' @ injection 30 @ '' bye'') \<and>
   readme (write_readme (''# Hello '' @ injection 30 @ '' bye'') 110)
     = Some (''# Hello '' @ injection 110 @ '' bye'')"
proof -
  have fb: "first_occurrence BEGIN_MARKER example_template 8"
    by code_simp
  have fe: "first_occurrence END_MARKER example_template 44"
    by code_simp
  have lt: "(8::nat) < 44" by simp
  have P: "take 8 example_template = ''# Hello ''"
    by code_simp
  have S: "drop (44 + length END_MARKER) example_template = '' bye''"
    by code_simp
  from C8_reinjection_replaces_block [OF fb fe lt, of 30 110] fb fe lt show ?thesis
    unfolding P S by simp
qed

text \<open>
  Claim C8 as stated, for every document that contains both markers, fails when the end
  marker comes first: the output then keeps both markers of the template around the
  injection, and the second injection adds another block instead of replacing the first.
\<close>

theorem C8_reversed_markers_counterexample:
  "sublist BEGIN_MARKER example_template_reversed \<and>
   sublist END_MARKER example_template_reversed \<and>
   readme (write_readme example_template_reversed 30)
     = Some (END_MARKER @ '' '' @ injection 30 @ '' '' @ BEGIN_MARKER) \<and>
   readme (write_readme (END_MARKER @ '' '' @ injection 30 @ '' '' @ BEGIN_MARKER) 30)
     = Some (END_MARKER @ '' '' @ injection 30 @ '' '' @ injection 30 @ '' '' @ BEGIN_MARKER) \<and>
   END_MARKER @ '' '' @ injection 30 @ '' '' @ injection 30 @ '' '' @ BEGIN_MARKER
     \<noteq> END_MARKER @ '' '' @ injection 30 @ '' '' @ BEGIN_MARKER \<and>
   occurrences BEGIN_MARKER (END_MARKER @ '' '' @ injection 30 @ '' '' @ BEGIN_MARKER) = 2 \<and>
   occurrences BEGIN_MARKER
     (END_MARKER @ '' '' @ injection 30 @ '' '' @ injection 30 @ '' '' @ BEGIN_MARKER) = 3"
proof -
  let ?once = "END_MARKER @ '' '' @ injection 30 @ '' '' @ BEGIN_MARKER"
  let ?twice = "END_MARKER @ '' '' @ injection 30 @ '' '' @ injection 30 @ '' '' @ BEGIN_MARKER"
  have 1: "sublist BEGIN_MARKER example_template_reversed"
    by code_simp
  have 2: "sublist END_MARKER example_template_reversed"
    by code_simp
  have 3: "readme (write_readme example_template_reversed 30) = Some ?once"
    by code_simp
  have 4: "readme (write_readme ?once 30) = Some ?twice"
    by code_simp
  have 5: "?twice \<noteq> ?once"
  proof
    assume "?twice = ?once"
    then have "length ?twice = length ?once" by (rule arg_cong)
    then show False by simp
  qed
  have 6: "occurrences BEGIN_MARKER ?once = 2"
    by code_simp
  have 7: "occurrences BEGIN_MARKER ?twice = 3"
    by code_simp
  from 1 2 3 4 5 6 7 show ?thesis by (intro conjI)
qed

end
